theory Spec2Isabelle
  imports Complex_Main "HOL-Library.Multiset"
begin

section \<open>The Metropolis sampler of the notebook\<close>

text \<open>
  The notebook \<^verbatim>\<open>mc.ipynb\<close> holds one hand-written algorithm; everything else is
  calls into libraries.
  \<^verbatim>\<open>
  def metropolis(p,q,x_init,n):
      x = x_init
      samples = []
      rejected = [] # we only keep the rejected samples to plot them later
      for i in range(n):
          # find a new candidate spot to jump to
          x_prime = x + q()
          # if it's better, go right away
          if p(x_prime)>p(x):
              x = x_prime
              samples.append(x_prime)
          else:
              # if not, go with probability proportional to the
              # ratio between the new point and the current one
              pa = p(x_prime)/p(x)
              if np.random.uniform(0,1)<pa:
                  x = x_prime
                  samples.append(x_prime)
              else:
                  rejected.append(x_prime)
      return np.array(samples), np.array(rejected)
  \<close>

  Numbers. The density \<open>p\<close> of the notebook is scipy's \<^verbatim>\<open>pdf\<close>, which returns numpy
  \<^verbatim>\<open>float64\<close> scalars. A finite \<^verbatim>\<open>float64\<close> is the real number it stands for, so the
  values of \<open>p\<close> and the uniform draw are reals, and the two comparisons of the code are
  exact. The one arithmetic operation of the code is the division
  \<^verbatim>\<open>p(x_prime)/p(x)\<close>: on \<^verbatim>\<open>float64\<close> its result is the exact quotient rounded to the
  nearest \<^verbatim>\<open>float64\<close> (ties to even), it underflows to 0 and overflows to an infinity;
  with a zero divisor it does not raise (numpy warns) but yields \<^verbatim>\<open>nan\<close> for \<open>0/0\<close> and
  an infinity otherwise, and a comparison with \<^verbatim>\<open>nan\<close> is false. Signed zeros are not
  told apart.
\<close>

datatype float64 = Fin real | PosInf | NegInf | NaN

text \<open>Rounding a real to the nearest integer, a tie to the even one.\<close>

definition rne :: "real \<Rightarrow> int" where
  "rne y =
     (let f = \<lfloor>y\<rfloor>; r = y - of_int f
      in if r < 1/2 then f
         else if 1/2 < r then f + 1
         else if even f then f else f + 1)"

text \<open>
  The binary exponent of \<open>a \<ge> 0\<close> in the \<^verbatim>\<open>float64\<close> format: the \<open>e\<close> with
  \<open>2 powi e \<le> a < 2 powi (e + 1)\<close>, but no less than \<open>-1022\<close> (below \<open>2 powi (-1022)\<close>
  the numbers are subnormal and share that exponent) and \<open>1024\<close> from \<open>2 powi 1024\<close> on.
  It is searched upwards from \<open>-1022\<close>.
\<close>

fun float_exponent_from :: "nat \<Rightarrow> int \<Rightarrow> real \<Rightarrow> int" where
  "float_exponent_from 0 e a = e"
| "float_exponent_from (Suc n) e a =
     (if a < 2 powi (e + 1) then e else float_exponent_from n (e + 1) a)"

definition float_exponent :: "real \<Rightarrow> int" where
  "float_exponent a = float_exponent_from 2046 (- 1022) a"

text \<open>
  Rounding to \<^verbatim>\<open>float64\<close>: the significand has 53 bits, so the \<^verbatim>\<open>float64\<close> numbers
  with exponent \<open>e\<close> are the multiples of \<open>2 powi (e - 52)\<close>; the magnitude is rounded
  to the nearest of them, and a result of \<open>2 powi 1024\<close> or more is an infinity.
\<close>

definition round64 :: "real \<Rightarrow> float64" where
  "round64 x =
     (let a = \<bar>x\<bar>;
          ulp = 2 powi (float_exponent a - 52);
          r = of_int (rne (a / ulp)) * ulp
      in if 2 powi 1024 \<le> r then (if x < 0 then NegInf else PosInf)
         else Fin (if x < 0 then - r else r))"

definition float_div :: "real \<Rightarrow> real \<Rightarrow> float64" where
  "float_div a b =
     (if b \<noteq> 0 then round64 (a / b)
      else if a = 0 then NaN
      else if 0 < a then PosInf
      else NegInf)"

fun float_lt :: "real \<Rightarrow> float64 \<Rightarrow> bool" where
  "float_lt u (Fin r) = (u < r)"
| "float_lt u PosInf = True"
| "float_lt u NegInf = False"
| "float_lt u NaN = False"

text \<open>
  State. The loop of \<^verbatim>\<open>metropolis\<close> has the local variables \<^verbatim>\<open>x\<close>,
  \<^verbatim>\<open>samples\<close> and \<^verbatim>\<open>rejected\<close>. Both \<^verbatim>\<open>q()\<close> and
  \<^verbatim>\<open>np.random.uniform(0,1)\<close> read and advance numpy's global generator, which is
  no argument of the function; the model threads its state as the field \<open>gen\<close>.
\<close>

record ('a, 'g) chain =
  cur :: 'a
  samples :: "'a list"
  rejected :: "'a list"
  gen :: 'g

text \<open>
  One pass through the body of the \<^verbatim>\<open>for\<close> loop. The two library draws are
  parameters: \<open>q\<close> is the closure \<^verbatim>\<open>q()\<close>, \<open>uniform\<close> is
  \<^verbatim>\<open>np.random.uniform(0,1)\<close>; each returns its draw and the generator's next state.
  The uniform draw is made in the \<^verbatim>\<open>else\<close> branch only.
\<close>

definition step ::
  "('a::plus \<Rightarrow> real) \<Rightarrow> ('g \<Rightarrow> 'a \<times> 'g) \<Rightarrow> ('g \<Rightarrow> real \<times> 'g) \<Rightarrow>
   ('a, 'g) chain \<Rightarrow> ('a, 'g) chain" where
  "step p q uniform s =
     (let (noise, g1) = q (gen s);
          x_prime = cur s + noise
      in if p x_prime > p (cur s)
         then s\<lparr>cur := x_prime, samples := samples s @ [x_prime], gen := g1\<rparr>
         else
           (let pa = float_div (p x_prime) (p (cur s));
                (u, g2) = uniform g1
            in if float_lt u pa
               then s\<lparr>cur := x_prime, samples := samples s @ [x_prime], gen := g2\<rparr>
               else s\<lparr>rejected := rejected s @ [x_prime], gen := g2\<rparr>))"

fun metropolis_loop ::
  "('a::plus \<Rightarrow> real) \<Rightarrow> ('g \<Rightarrow> 'a \<times> 'g) \<Rightarrow> ('g \<Rightarrow> real \<times> 'g) \<Rightarrow>
   nat \<Rightarrow> ('a, 'g) chain \<Rightarrow> ('a, 'g) chain" where
  "metropolis_loop p q uniform 0 s = s"
| "metropolis_loop p q uniform (Suc k) s = metropolis_loop p q uniform k (step p q uniform s)"

definition init_chain :: "'a \<Rightarrow> 'g \<Rightarrow> ('a, 'g) chain" where
  "init_chain x_init g = \<lparr>cur = x_init, samples = [], rejected = [], gen = g\<rparr>"

text \<open>
  \<^verbatim>\<open>for i in range(n)\<close> runs \<open>nat n\<close> times (never for a negative \<open>n\<close>). The result
  is the pair of lists the function returns, and the state in which it leaves the
  global generator.
\<close>

definition metropolis ::
  "('a::plus \<Rightarrow> real) \<Rightarrow> ('g \<Rightarrow> 'a \<times> 'g) \<Rightarrow> ('g \<Rightarrow> real \<times> 'g) \<Rightarrow>
   'a \<Rightarrow> int \<Rightarrow> 'g \<Rightarrow> 'a list \<times> 'a list \<times> 'g" where
  "metropolis p q uniform x_init n g =
     (let s = metropolis_loop p q uniform (nat n) (init_chain x_init g)
      in (samples s, rejected s, gen s))"

text \<open>The candidate \<^verbatim>\<open>x_prime = x + q()\<close> that the next pass computes.\<close>

definition candidate :: "('g \<Rightarrow> 'a \<times> 'g) \<Rightarrow> ('a::plus, 'g) chain \<Rightarrow> 'a" where
  "candidate q s = cur s + fst (q (gen s))"

text \<open>
  The states at the start of the next \<open>k\<close> passes, in order, and the candidates that
  these passes compute.
\<close>

fun passes ::
  "('a::plus \<Rightarrow> real) \<Rightarrow> ('g \<Rightarrow> 'a \<times> 'g) \<Rightarrow> ('g \<Rightarrow> real \<times> 'g) \<Rightarrow>
   nat \<Rightarrow> ('a, 'g) chain \<Rightarrow> ('a, 'g) chain list" where
  "passes p q uniform 0 s = []"
| "passes p q uniform (Suc k) s = s # passes p q uniform k (step p q uniform s)"

definition candidates ::
  "('a::plus \<Rightarrow> real) \<Rightarrow> ('g \<Rightarrow> 'a \<times> 'g) \<Rightarrow> ('g \<Rightarrow> real \<times> 'g) \<Rightarrow>
   nat \<Rightarrow> ('a, 'g) chain \<Rightarrow> 'a list" where
  "candidates p q uniform k s = map (candidate q) (passes p q uniform k s)"

text \<open>
  A pass accepts when it appends the candidate to \<^verbatim>\<open>samples\<close> and moves there; it
  rejects when it appends the candidate to \<^verbatim>\<open>rejected\<close> and stays.
\<close>

definition accepts ::
  "('a::plus \<Rightarrow> real) \<Rightarrow> ('g \<Rightarrow> 'a \<times> 'g) \<Rightarrow> ('g \<Rightarrow> real \<times> 'g) \<Rightarrow> ('a, 'g) chain \<Rightarrow> bool" where
  "accepts p q uniform s =
     (let s' = step p q uniform s
      in cur s' = candidate q s \<and> samples s' = samples s @ [candidate q s] \<and>
         rejected s' = rejected s)"

definition rejects ::
  "('a::plus \<Rightarrow> real) \<Rightarrow> ('g \<Rightarrow> 'a \<times> 'g) \<Rightarrow> ('g \<Rightarrow> real \<times> 'g) \<Rightarrow> ('a, 'g) chain \<Rightarrow> bool" where
  "rejects p q uniform s =
     (let s' = step p q uniform s
      in cur s' = cur s \<and> samples s' = samples s \<and>
         rejected s' = rejected s @ [candidate q s])"

section \<open>The sampler that the notebook only calls\<close>

text \<open>
  The notebook runs the graph sampler as \<^verbatim>\<open>mcmc.sample(iter=10000, burn=2000, thin=5)\<close>
  and builds its models with library calls; the sampler's loop and the model
  construction are not among the source files. The definitions of this section follow
  the specification's text instead.
\<close>

subsection \<open>Burn-in and thinning\<close>

text \<open>
  Modelled from the spec: the run configuration of section 6, missing from the source
  files; its fields are unsigned integers. The seed and the step assignment play no part
  in the retention rule and are left out.
\<close>

record run_config =
  iterations :: nat
  burn_in :: nat
  thin_interval :: nat

text \<open>
  Modelled from the spec: the error of section 7 that is raised at run start, missing
  from the source files.
\<close>

datatype sampler_error = InvalidConfiguration

text \<open>
  Modelled from the spec: the Trace Store's append, missing from the source files.
  The store maps a node identity to its recorded sequence, in the fixed order of the
  unobserved nodes; an append adds the current value of every one of them.
\<close>

definition append_values ::
  "(string \<Rightarrow> 'v) \<Rightarrow> (string \<times> 'v list) list \<Rightarrow> (string \<times> 'v list) list" where
  "append_values current store = map (\<lambda>(name, recorded). (name, recorded @ [current name])) store"

text \<open>
  Modelled from the spec: the Sampler's loop (section 4.4), missing from the source
  files. \<open>sweep\<close> is one sweep (one Step Engine application per unobserved node) and
  \<open>current\<close> reads a node's current value; both are parameters. Sweeps are counted from
  1, as the spec's "sweep 25, not sweep 1" does. The first \<open>burn_in\<close> sweeps append
  nothing; after a later sweep the values are appended if
  \<open>(sweep_index - burn_in) mod thin_interval = 0\<close>.
\<close>

fun run_sweeps ::
  "('st \<Rightarrow> 'st) \<Rightarrow> ('st \<Rightarrow> string \<Rightarrow> 'v) \<Rightarrow> run_config \<Rightarrow> nat \<Rightarrow> nat \<Rightarrow>
   'st \<times> (string \<times> 'v list) list \<Rightarrow> 'st \<times> (string \<times> 'v list) list" where
  "run_sweeps sweep current cfg 0 swept (st, store) = (st, store)"
| "run_sweeps sweep current cfg (Suc k) swept (st, store) =
     (let st' = sweep st;
          sweep_index = Suc swept;
          store' = (if burn_in cfg < sweep_index \<and>
                       (sweep_index - burn_in cfg) mod thin_interval cfg = 0
                    then append_values (current st') store
                    else store)
      in run_sweeps sweep current cfg k sweep_index (st', store'))"

text \<open>
  Modelled from the spec: the run's entry point, missing from the source files. An
  invalid configuration (\<open>thin_interval = 0\<close> or \<open>burn_in > iterations\<close>) is refused
  before any sweep; otherwise \<open>iterations\<close> sweeps run from an empty store with one
  sequence per unobserved node.
\<close>

definition sample ::
  "('st \<Rightarrow> 'st) \<Rightarrow> ('st \<Rightarrow> string \<Rightarrow> 'v) \<Rightarrow> run_config \<Rightarrow> string list \<Rightarrow> 'st \<Rightarrow>
   sampler_error + 'st \<times> (string \<times> 'v list) list" where
  "sample sweep current cfg unobserved st0 =
     (if thin_interval cfg = 0 \<or> iterations cfg < burn_in cfg then Inl InvalidConfiguration
      else Inr (run_sweeps sweep current cfg (iterations cfg) 0
                  (st0, map (\<lambda>name. (name, [])) unobserved)))"

text \<open>
  Modelled from the spec: the retention rule of section 4.4 read as a list, missing from
  the source files: the indices \<open>i\<close> of the sweeps \<open>1, \<dots>, iterations\<close> that are past
  burn-in and have \<open>(i - burn_in) mod thin_interval = 0\<close>.
\<close>

definition retained :: "run_config \<Rightarrow> nat list" where
  "retained cfg =
     filter (\<lambda>i. burn_in cfg < i \<and> (i - burn_in cfg) mod thin_interval cfg = 0)
       [1..<Suc (iterations cfg)]"

subsection \<open>Masked observations\<close>

text \<open>
  Modelled from the spec: the kinds of a Node (section 3), missing from the source
  files.
\<close>

datatype node_kind = Stochastic | Deterministic | Observed

text \<open>
  Modelled from the spec: the Node of section 3, missing from the source files. The
  field \<open>family\<close> stands for the node's distributional family (its supplied
  \<open>log_density\<close>); \<open>node_value\<close> is the spec's \<open>value\<close>.
\<close>

record 'f node =
  identity :: string
  kind :: node_kind
  node_value :: "real list"
  parents :: "string list"
  family :: 'f
  observed_mask :: "bool list"

text \<open>
  Modelled from the spec: the masked entries of a node (section 3), missing from the
  source files: the positions at which \<open>observed_mask\<close> is false.
\<close>

definition masked_entries :: "'f node \<Rightarrow> nat list" where
  "masked_entries nd =
     filter (\<lambda>i. \<not> observed_mask nd ! i) [0..<length (observed_mask nd)]"

text \<open>
  Modelled from the spec: the latent scalar of a masked entry (section 4.1 (b)), missing
  from the source files: a Stochastic node with the parents and the family of the
  Observed node, holding that one entry. The spec does not say how it is named;
  \<open>entry_name\<close> is a parameter.
\<close>

definition latent_node :: "(string \<Rightarrow> nat \<Rightarrow> string) \<Rightarrow> 'f node \<Rightarrow> nat \<Rightarrow> 'f node" where
  "latent_node entry_name nd i =
     \<lparr>identity = entry_name (identity nd) i, kind = Stochastic,
      node_value = take 1 (drop i (node_value nd)), parents = parents nd,
      family = family nd, observed_mask = []\<rparr>"

text \<open>
  Modelled from the spec: the masked-observation handling of section 4.1 (b), missing
  from the source files: one latent scalar per masked entry.
\<close>

definition latent_nodes :: "(string \<Rightarrow> nat \<Rightarrow> string) \<Rightarrow> 'f node \<Rightarrow> 'f node list" where
  "latent_nodes entry_name nd = map (latent_node entry_name nd) (masked_entries nd)"

text \<open>
  Modelled from the spec: what one node adds to the unobserved-node set, missing from
  the source files: a Stochastic node itself, an Observed node its latent scalars, a
  Deterministic node nothing (it is not stepped).
\<close>

fun unobserved_of :: "(string \<Rightarrow> nat \<Rightarrow> string) \<Rightarrow> 'f node \<Rightarrow> 'f node list" where
  "unobserved_of entry_name nd =
     (case kind nd of
        Stochastic \<Rightarrow> [nd]
      | Deterministic \<Rightarrow> []
      | Observed \<Rightarrow> latent_nodes entry_name nd)"

text \<open>
  Modelled from the spec: the unobserved-node set that the sampler steps, missing from
  the source files, in the order of the model specification.
\<close>

definition unobserved_nodes :: "(string \<Rightarrow> nat \<Rightarrow> string) \<Rightarrow> 'f node list \<Rightarrow> 'f node list" where
  "unobserved_nodes entry_name nodes = concat (map (unobserved_of entry_name) nodes)"

text \<open>
  Modelled from the spec: the Trace Store created for a run, missing from the source
  files: one empty sequence per unobserved node.
\<close>

definition new_trace_store ::
  "(string \<Rightarrow> nat \<Rightarrow> string) \<Rightarrow> 'f node list \<Rightarrow> (string \<times> real list list) list" where
  "new_trace_store entry_name nodes =
     map (\<lambda>nd. (identity nd, [])) (unobserved_nodes entry_name nodes)"

text \<open>
  The notebook's masking:
  \<^verbatim>\<open>
  y_impute = y[:]
  y_impute[-3:] = 0
  y_impute = ma.masked_equal(y_impute,0)
  \<close>
  The last three entries of \<^verbatim>\<open>y\<close> are set to 0, and numpy's \<^verbatim>\<open>masked_equal\<close> masks
  every entry equal to 0. The result is given as the spec's \<open>observed_mask\<close>: a fixed
  entry is true, a masked one false.
\<close>

definition zero_last_three :: "real list \<Rightarrow> real list" where
  "zero_last_three y = take (length y - 3) y @ replicate (min 3 (length y)) 0"

definition masked_equal :: "real list \<Rightarrow> real \<Rightarrow> bool list" where
  "masked_equal ys v = map (\<lambda>y. y \<noteq> v) ys"

definition y_impute :: "real list \<Rightarrow> bool list" where
  "y_impute y = masked_equal (zero_last_three y) 0"

section \<open>Rounding to float64\<close>

lemma rne_error: "\<bar>of_int (rne y) - y\<bar> \<le> 1/2"
  unfolding rne_def Let_def by (auto simp: abs_if) linarith+

lemma rne_nonneg: "0 \<le> y \<Longrightarrow> 0 \<le> rne y"
  unfolding rne_def Let_def by (auto simp: zero_le_floor intro: add_nonneg_nonneg)

lemma rne_le_int: "y \<le> of_int N \<Longrightarrow> rne y \<le> N"
proof -
  assume le: "y \<le> of_int N"
  then have f: "\<lfloor>y\<rfloor> \<le> N" by (simp add: floor_le_iff) 
  show ?thesis
  proof (cases "\<lfloor>y\<rfloor> = N")
    case True
    then have "of_int N \<le> y" by (metis of_int_floor_le)
    with le have "y - of_int \<lfloor>y\<rfloor> = 0" using True by simp
    then show ?thesis using True by (simp add: rne_def Let_def)
  next
    case False
    with f have "\<lfloor>y\<rfloor> + 1 \<le> N" by simp
    then show ?thesis using f by (auto simp: rne_def Let_def)
  qed
qed

lemma rne_of_int: "rne (of_int m) = m"
  by (simp add: rne_def Let_def)

lemma float_exponent_from_le:
  "a < 2 powi (k + 1) \<Longrightarrow> e \<le> k \<Longrightarrow> float_exponent_from n e a \<le> k"
proof (induction n arbitrary: e)
  case 0
  then show ?case by simp
next
  case (Suc n)
  show ?case
  proof (cases "a < 2 powi (e + 1)")
    case True
    with Suc.prems show ?thesis by simp
  next
    case False
    have "e \<noteq> k" using False Suc.prems(1) by auto
    with Suc.prems have "e + 1 \<le> k" by simp
    from Suc.IH [OF Suc.prems(1) this] False show ?thesis by simp
  qed
qed

lemma float_exponent_from_eq:
  "e \<le> k \<Longrightarrow> k \<le> e + int n \<Longrightarrow> k = e \<or> 2 powi k \<le> a \<Longrightarrow>
   a < 2 powi (k + 1) \<or> k = e + int n \<Longrightarrow> float_exponent_from n e a = k"
proof (induction n arbitrary: e)
  case 0
  then show ?case by simp
next
  case (Suc n)
  show ?case
  proof (cases "a < 2 powi (e + 1)")
    case True
    have "k = e"
    proof (rule ccontr)
      assume ne: "k \<noteq> e"
      with Suc.prems have "e + 1 \<le> k" and "2 powi k \<le> a" by auto
      then have "(2::real) powi (e + 1) \<le> 2 powi k" by (intro power_int_increasing) auto
      with True \<open>2 powi k \<le> a\<close> show False by simp
    qed
    with True show ?thesis by simp
  next
    case False
    have ne: "k \<noteq> e"
    proof
      assume "k = e"
      with Suc.prems(4) False have "k = e + int (Suc n)" by auto
      with \<open>k = e\<close> show False by simp
    qed
    with Suc.prems have 1: "e + 1 \<le> k" and 3: "k = e + 1 \<or> 2 powi k \<le> a" by auto
    from Suc.prems(2) have 2: "k \<le> e + 1 + int n" by simp
    from Suc.prems(4) have 4: "a < 2 powi (k + 1) \<or> k = e + 1 + int n" by auto
    from Suc.IH [OF 1 2 3 4] False show ?thesis by simp
  qed
qed

lemma float_exponent_le: "a < 2 powi (k + 1) \<Longrightarrow> - 1022 \<le> k \<Longrightarrow> float_exponent a \<le> k"
  unfolding float_exponent_def by (rule float_exponent_from_le)

lemma float_exponent_eq:
  "- 1022 \<le> k \<Longrightarrow> k \<le> 1023 \<Longrightarrow> k = - 1022 \<or> 2 powi k \<le> a \<Longrightarrow> a < 2 powi (k + 1) \<Longrightarrow>
   float_exponent a = k"
  unfolding float_exponent_def by (rule float_exponent_from_eq) auto

lemma round64_zero: "round64 0 = Fin 0"
proof -
  have "float_exponent 0 = - 1022" by (rule float_exponent_eq) simp_all
  then show ?thesis by (simp add: round64_def rne_def)
qed

lemma round64_unit_interval:
  assumes "0 \<le> x" and "x < 1"
  shows "\<exists>pa. round64 x = Fin pa \<and> 0 \<le> pa \<and> pa \<le> 1 \<and> \<bar>pa - x\<bar> \<le> 1 / 2 ^ 54"
proof -
  define e where "e = float_exponent x"
  define ulp :: real where "ulp = 2 powi (e - 52)"
  define m where "m = rne (x / ulp)"
  have e: "e \<le> - 1"
    unfolding e_def using assms(2) by (intro float_exponent_le) simp_all
  have ulp_pos: "0 < ulp" by (simp add: ulp_def)
  have "ulp \<le> 2 powi (- 53)"
    unfolding ulp_def using e by (intro power_int_increasing) simp_all
  then have ulp_le: "ulp \<le> 1 / 2 ^ 53" by (simp add: power_int_minus field_simps)
  have inv: "1 / ulp = of_int (2 ^ nat (52 - e))"
    using e by (simp add: ulp_def power_int_diff power_int_def field_simps flip: power_add)
  have "x / ulp < 1 / ulp"
    using assms(2) ulp_pos by (simp add: divide_strict_right_mono)
  then have lt: "x / ulp \<le> of_int (2 ^ nat (52 - e))"
    unfolding inv by simp
  have m_le: "m \<le> 2 ^ nat (52 - e)"
    unfolding m_def using lt by (rule rne_le_int)
  have m_ge: "0 \<le> m"
    unfolding m_def using assms(1) ulp_pos by (intro rne_nonneg) simp
  define pa where "pa = of_int m * ulp"
  have pa0: "0 \<le> pa"
    unfolding pa_def using m_ge ulp_pos by simp
  have "of_int m * ulp \<le> of_int (2 ^ nat (52 - e)) * ulp"
    using m_le ulp_pos by (intro mult_right_mono) simp_all
  also have "\<dots> = 1"
    using inv ulp_pos by (simp add: field_simps)
  finally have pa1: "pa \<le> 1" by (simp add: pa_def)
  have "\<bar>pa - x\<bar> = \<bar>of_int m - x / ulp\<bar> * ulp"
    using ulp_pos by (simp add: pa_def abs_mult [symmetric] field_simps flip: abs_of_pos)
  also have "\<dots> \<le> (1/2) * ulp"
    unfolding m_def using ulp_pos by (intro mult_right_mono rne_error) simp
  also have "\<dots> \<le> (1/2) * (1 / 2 ^ 53)"
    using ulp_le by simp
  finally have err: "\<bar>pa - x\<bar> \<le> 1 / 2 ^ 54" by simp
  have "pa < 2 powi 1024"
  proof -
    have "(1::real) \<le> 2 powi 1024" by (rule one_le_power_int) simp_all
    with pa1 have "pa \<le> 2 powi 1024" by simp
    moreover have "(1::real) < 2 powi 1024"
      using power_int_strict_increasing [of 0 1024 "2::real"] by simp
    ultimately show ?thesis using pa1 by linarith
  qed
  then have "round64 x = Fin pa"
    using assms(1) by (simp add: round64_def Let_def pa_def m_def ulp_def e_def)
  with pa0 pa1 err show ?thesis by blast
qed

lemma round64_one: "round64 1 = Fin 1"
proof -
  have e: "float_exponent 1 = 0" by (rule float_exponent_eq) simp_all
  have "(2::real) powi 1024 = 2 ^ 1024" by (simp add: power_int_def)
  then show ?thesis
    by (simp add: round64_def e power_int_minus rne_def Let_def)
qed

lemma round64_half: "round64 (1/2) = Fin (1/2)"
proof -
  have e: "float_exponent (1/2) = - 1" by (rule float_exponent_eq) (simp_all add: power_int_minus)
  have "(2::real) powi 1024 = 2 ^ 1024" by (simp add: power_int_def)
  then show ?thesis
    by (simp add: round64_def e power_int_minus rne_def Let_def)
qed

lemma round64_two_thirds: "round64 (2/3) = Fin (6004799503160661 / 2 ^ 53)"
proof -
  have e: "float_exponent (2/3) = - 1" by (rule float_exponent_eq) (simp_all add: power_int_minus)
  have "(2::real) powi 1024 = 2 ^ 1024" by (simp add: power_int_def)
  then show ?thesis
    by (simp add: round64_def e power_int_minus rne_def Let_def)
qed

lemma round64_underflow:
  assumes "0 \<le> x" and "x \<le> 2 powi (- 1075)"
  shows "round64 x = Fin 0"
proof -
  define ulp :: real where "ulp = 2 powi (- 1074)"
  have ulp_pos: "0 < ulp" by (simp add: ulp_def)
  have "2 powi (- 1075) < (2::real) powi (- 1021)"
    by (rule power_int_strict_increasing) simp_all
  with assms(2) have "x < 2 powi (- 1022 + 1)" by simp
  then have e: "float_exponent x = - 1022"
    by (intro float_exponent_eq) simp_all
  have half: "(2::real) powi (- 1075) = ulp / 2"
    unfolding ulp_def using power_int_add [of "2::real" "- 1075" 1] by simp
  have "x / ulp \<le> (ulp / 2) / ulp"
    using assms(2) ulp_pos unfolding half by (intro divide_right_mono) simp_all
  then have le: "x / ulp \<le> 1 / 2" using ulp_pos by simp
  have ge: "0 \<le> x / ulp" using assms(1) ulp_pos by simp
  have f: "\<lfloor>x / ulp\<rfloor> = 0"
  proof -
    from le have "x / ulp < 1" by linarith
    with ge show ?thesis by (simp add: floor_eq_iff)
  qed
  have r: "rne (x / ulp) = 0"
    using le by (simp add: rne_def Let_def f)
  have a: "\<bar>x\<bar> = x" using assms(1) by simp
  have u: "2 powi (float_exponent x - 52) = ulp"
    unfolding e ulp_def by simp
  have big: "\<not> (2::real) powi 1024 \<le> 0"
    by (simp add: not_le)
  show ?thesis
    unfolding round64_def Let_def a u r using assms(1) big by simp
qed

lemma float_div_zero_left: "b \<noteq> 0 \<Longrightarrow> float_div 0 b = Fin 0"
  by (simp add: float_div_def round64_zero)

lemma float_div_same: "b \<noteq> 0 \<Longrightarrow> float_div b b = Fin 1"
  by (simp add: float_div_def round64_one)

lemma float_div_by_zero:
  "float_div a 0 = (if a = 0 then NaN else if 0 < a then PosInf else NegInf)"
  by (simp add: float_div_def)

lemmas float_div_simps = float_div_zero_left float_div_same float_div_by_zero

section \<open>Shared lemmas about one pass and about the loop\<close>

lemma accepts_iff:
  assumes "q (gen s) = (noise, g1)" and "uniform g1 = (u, g2)"
  shows "accepts p q uniform s \<longleftrightarrow>
         p (cur s) < p (cur s + noise) \<or> float_lt u (float_div (p (cur s + noise)) (p (cur s)))"
  using assms by (auto simp: accepts_def step_def candidate_def Let_def)

lemma rejects_iff:
  assumes "q (gen s) = (noise, g1)" and "uniform g1 = (u, g2)"
  shows "rejects p q uniform s \<longleftrightarrow>
         \<not> (p (cur s) < p (cur s + noise) \<or>
            float_lt u (float_div (p (cur s + noise)) (p (cur s))))"
  using assms by (auto simp: rejects_def step_def candidate_def Let_def)

lemma accepts_or_rejects: "rejects p q uniform s \<longleftrightarrow> \<not> accepts p q uniform s"
proof -
  obtain noise g1 where q: "q (gen s) = (noise, g1)" by (cases "q (gen s)")
  obtain u g2 where u: "uniform g1 = (u, g2)" by (cases "uniform g1")
  show ?thesis
    using accepts_iff [of q s noise g1 uniform u g2 p] rejects_iff [of q s noise g1 uniform u g2 p] q u
    by simp
qed

lemma step_samples:
  "samples (step p q uniform s) =
   samples s @ (if accepts p q uniform s then [candidate q s] else [])"
  by (auto simp: accepts_def step_def candidate_def Let_def split: prod.splits)

lemma step_rejected:
  "rejected (step p q uniform s) =
   rejected s @ (if accepts p q uniform s then [] else [candidate q s])"
  by (auto simp: accepts_def step_def candidate_def Let_def split: prod.splits)

lemma step_cur:
  "cur (step p q uniform s) = (if accepts p q uniform s then candidate q s else cur s)"
  by (auto simp: accepts_def step_def candidate_def Let_def split: prod.splits)

lemma loop_samples:
  "samples (metropolis_loop p q uniform k s) =
   samples s @ map (candidate q) (filter (accepts p q uniform) (passes p q uniform k s))"
  by (induction k arbitrary: s) (simp_all add: step_samples)

lemma loop_rejected:
  "rejected (metropolis_loop p q uniform k s) =
   rejected s @
   map (candidate q) (filter (\<lambda>t. \<not> accepts p q uniform t) (passes p q uniform k s))"
  by (induction k arbitrary: s) (simp_all add: step_rejected)

lemma length_passes: "length (passes p q uniform k s) = k"
  by (induction k arbitrary: s) simp_all

lemma loop_cur_unchanged:
  "\<forall>t \<in> set (passes p q uniform k s). \<not> accepts p q uniform t \<Longrightarrow>
   cur (metropolis_loop p q uniform k s) = cur s"
  by (induction k arbitrary: s) (simp_all add: step_cur)

lemma filter_all_length:
  "length (filter P xs) = length xs \<Longrightarrow> \<forall>x \<in> set xs. P x"
proof
  fix x assume len: "length (filter P xs) = length xs" and x: "x \<in> set xs"
  show "P x"
  proof (rule ccontr)
    assume "\<not> P x"
    with x have "length (filter P xs) < length xs" by (rule length_filter_less)
    with len show False by simp
  qed
qed

lemma mset_map_partition:
  "mset (map f (filter P xs)) + mset (map f (filter (\<lambda>x. \<not> P x) xs)) = mset (map f xs)"
  by (induction xs) simp_all

lemma accepts_positive:
  assumes "\<forall>y. 0 \<le> p y" and "\<forall>h. 0 \<le> fst (uniform h)" and "accepts p q uniform s"
  shows "0 < p (candidate q s)"
proof -
  obtain noise g1 where q: "q (gen s) = (noise, g1)" by (cases "q (gen s)")
  obtain u g2 where u: "uniform g1 = (u, g2)" by (cases "uniform g1")
  from assms(2) u have u0: "0 \<le> u" by (metis fst_conv)
  have c: "candidate q s = cur s + noise" by (simp add: candidate_def q)
  from assms(1) have p0: "0 \<le> p (cur s)" and pc: "0 \<le> p (cur s + noise)" by simp_all
  from assms(3) have "p (cur s) < p (cur s + noise) \<or>
      float_lt u (float_div (p (cur s + noise)) (p (cur s)))"
    using accepts_iff [of q s noise g1 uniform u g2 p] q u by simp
  then have "0 < p (cur s + noise)"
  proof
    assume "p (cur s) < p (cur s + noise)"
    with p0 show ?thesis by simp
  next
    assume lt: "float_lt u (float_div (p (cur s + noise)) (p (cur s)))"
    show ?thesis
    proof (rule ccontr)
      assume "\<not> 0 < p (cur s + noise)"
      with pc have z: "p (cur s + noise) = 0" by simp
      with lt u0 show False
        by (cases "p (cur s) = 0") (simp_all add: float_div_simps)
    qed
  qed
  with c show ?thesis by simp
qed

lemma passes_cur_positive:
  assumes "\<forall>y. 0 \<le> p y" and "\<forall>h. 0 \<le> fst (uniform h)"
  shows "0 < p (cur s) \<Longrightarrow> \<forall>t \<in> set (passes p q uniform k s). 0 < p (cur t)"
proof (induction k arbitrary: s)
  case 0
  then show ?case by simp
next
  case (Suc k)
  have "0 < p (cur (step p q uniform s))"
    using Suc.prems accepts_positive [OF assms, of q s] by (simp add: step_cur)
  with Suc show ?case by simp
qed

subsection \<open>The sampler and the model of the specification\<close>

lemma append_values_map:
  "append_values current (map (\<lambda>name. (name, f name)) names) =
   map (\<lambda>name. (name, f name @ [current name])) names"
  by (simp add: append_values_def)

lemma run_sweeps_retained:
  "run_sweeps sweep current cfg k swept
     ((sweep ^^ swept) st0, map (\<lambda>name. (name, f name)) names) =
   ((sweep ^^ (swept + k)) st0,
    map (\<lambda>name. (name, f name @
        map (\<lambda>i. current ((sweep ^^ i) st0) name)
          (filter (\<lambda>i. burn_in cfg < i \<and> (i - burn_in cfg) mod thin_interval cfg = 0)
             [Suc swept..<Suc (swept + k)]))) names)"
proof (induction k arbitrary: swept f)
  case 0
  then show ?case by simp
next
  case (Suc k)
  let ?P = "\<lambda>i. burn_in cfg < i \<and> (i - burn_in cfg) mod thin_interval cfg = 0"
  let ?now = "\<lambda>name. (if ?P (Suc swept) then [current ((sweep ^^ Suc swept) st0) name] else [])"
  let ?f' = "\<lambda>name. f name @ ?now name"
  have "run_sweeps sweep current cfg (Suc k) swept
          ((sweep ^^ swept) st0, map (\<lambda>name. (name, f name)) names) =
        run_sweeps sweep current cfg k (Suc swept)
          ((sweep ^^ Suc swept) st0, map (\<lambda>name. (name, ?f' name)) names)"
    by (cases "?P (Suc swept)") (auto simp: Let_def append_values_map)
  also have "\<dots> = ((sweep ^^ (Suc swept + k)) st0,
      map (\<lambda>name. (name, ?f' name @
        map (\<lambda>i. current ((sweep ^^ i) st0) name)
          (filter ?P [Suc (Suc swept)..<Suc (Suc swept + k)]))) names)"
    by (rule Suc.IH)
  also have "\<dots> = ((sweep ^^ (swept + Suc k)) st0,
      map (\<lambda>name. (name, f name @
        map (\<lambda>i. current ((sweep ^^ i) st0) name)
          (filter ?P [Suc swept..<Suc (swept + Suc k)]))) names)"
    by (simp add: upt_conv_Cons del: upt_Suc)
  finally show ?case .
qed

lemma length_masked_entries:
  "length (masked_entries nd) = count_list (observed_mask nd) False"
proof -
  have "length (filter (\<lambda>i. \<not> m ! i) [0..<length m]) = count_list m False" for m :: "bool list"
  proof (induction m rule: rev_induct)
    case Nil
    then show ?case by simp
  next
    case (snoc b m)
    have "filter (\<lambda>i. \<not> (m @ [b]) ! i) [0..<length m] = filter (\<lambda>i. \<not> m ! i) [0..<length m]"
      by (rule filter_cong) (simp_all add: nth_append)
    with snoc show ?case by (simp add: count_list_append)
  qed
  then show ?thesis by (simp add: masked_entries_def)
qed

lemma unobserved_nodes_insert:
  "unobserved_nodes entry_name (before @ nd # after) =
   unobserved_nodes entry_name before @ unobserved_of entry_name nd @
   unobserved_nodes entry_name after"
  by (simp add: unobserved_nodes_def)

section \<open>The acceptance rule\<close>

text \<open>
  Claim C1, as amended. The code compares densities, not log-densities: with
  \<open>ld = ln p\<close> (and \<open>ld = -infinity\<close> for density 0), \<open>ld_after \<ge> ld_before\<close> is
  \<open>p x \<le> p x_prime\<close> and \<open>exp (ld_after - ld_before)\<close> is the exact quotient
  \<open>p x_prime / p x\<close>. Unless the current and the candidate density are both 0, and for a
  uniform draw \<open>u\<close> in \<open>[0, 1)\<close>: if the candidate's density is at least the current one,
  the pass accepts; otherwise it accepts exactly when \<open>u < pa\<close>, where \<open>pa\<close> is the
  \<^verbatim>\<open>float64\<close> quotient that the code computes. This \<open>pa\<close> lies in \<open>[0, 1]\<close> and
  differs from \<open>exp (ld_after - ld_before)\<close> by at most \<open>2^-54\<close>; the accepting draws are
  the interval from 0 to \<open>pa\<close>, whose length is the probability of acceptance; and the
  pass consumes one uniform draw.
\<close>

theorem acceptance_rule:
  assumes "q (gen s) = (noise, g1)" and "uniform g1 = (u, g2)"
    and "0 \<le> u" and "u < 1"
    and "0 \<le> p (cur s + noise)"
    and "p (cur s + noise) \<noteq> 0 \<or> p (cur s) \<noteq> 0"
  shows "(p (cur s) \<le> p (cur s + noise) \<longrightarrow> accepts p q uniform s) \<and>
         (p (cur s + noise) < p (cur s) \<longrightarrow>
            (\<exists>pa. float_div (p (cur s + noise)) (p (cur s)) = Fin pa \<and>
               0 \<le> pa \<and> pa \<le> 1 \<and>
               \<bar>pa - p (cur s + noise) / p (cur s)\<bar> \<le> 1 / 2 ^ 54 \<and>
               (accepts p q uniform s \<longleftrightarrow> u < pa) \<and>
               (rejects p q uniform s \<longleftrightarrow> pa \<le> u) \<and>
               {v. 0 \<le> v \<and> v < 1 \<and> v < pa} = {0 ..< pa}) \<and>
            (0 < p (cur s + noise) \<longrightarrow>
               p (cur s + noise) / p (cur s) = exp (ln (p (cur s + noise)) - ln (p (cur s)))) \<and>
            gen (step p q uniform s) = g2)"
proof (intro conjI impI)
  note acc = accepts_iff [of q s noise g1 uniform u g2 p, OF assms(1,2)]
  {
    assume le: "p (cur s) \<le> p (cur s + noise)"
    show "accepts p q uniform s"
    proof (cases "p (cur s) < p (cur s + noise)")
      case True
      then show ?thesis by (simp add: acc)
    next
      case False
      with le have eq: "p (cur s + noise) = p (cur s)" by simp
      with assms(6) have "p (cur s) \<noteq> 0" by auto
      with eq have "float_div (p (cur s + noise)) (p (cur s)) = Fin 1"
        by (simp add: float_div_same)
      with assms(4) show ?thesis by (simp add: acc)
    qed
  }
  assume lt: "p (cur s + noise) < p (cur s)"
  with assms(5) have pos: "0 < p (cur s)" by simp
  let ?x = "p (cur s + noise) / p (cur s)"
  have x0: "0 \<le> ?x" using assms(5) pos by simp
  have x1: "?x < 1" using lt pos by simp
  from round64_unit_interval [OF x0 x1] obtain pa
    where r: "round64 ?x = Fin pa" and pa0: "0 \<le> pa" and pa1: "pa \<le> 1"
      and err: "\<bar>pa - ?x\<bar> \<le> 1 / 2 ^ 54"
    by blast
  have fd: "float_div (p (cur s + noise)) (p (cur s)) = Fin pa"
    using pos r by (simp add: float_div_def)
  have a: "accepts p q uniform s \<longleftrightarrow> u < pa"
    using lt by (simp add: acc fd)
  have b: "rejects p q uniform s \<longleftrightarrow> pa \<le> u"
    using a by (auto simp: accepts_or_rejects)
  have c: "{v. 0 \<le> v \<and> v < 1 \<and> v < pa} = {0 ..< pa}"
    using pa1 by auto
  from fd pa0 pa1 err a b c
  show "\<exists>pa. float_div (p (cur s + noise)) (p (cur s)) = Fin pa \<and>
          0 \<le> pa \<and> pa \<le> 1 \<and> \<bar>pa - ?x\<bar> \<le> 1 / 2 ^ 54 \<and>
          (accepts p q uniform s \<longleftrightarrow> u < pa) \<and> (rejects p q uniform s \<longleftrightarrow> pa \<le> u) \<and>
          {v. 0 \<le> v \<and> v < 1 \<and> v < pa} = {0 ..< pa}"
    by blast
  show "gen (step p q uniform s) = g2"
    using lt assms(1,2) by (simp add: step_def Let_def)
  assume "0 < p (cur s + noise)"
  then show "?x = exp (ln (p (cur s + noise)) - ln (p (cur s)))"
    using pos by (simp add: exp_diff)
qed

text \<open>
  The rule at five inputs: a move from density 1 to density 2; a move from density 2 to
  density 1, where \<open>pa = 1/2\<close>, with the draw \<open>u = 1/4\<close>, accepted, and with the draw
  \<open>u = 3/4\<close>, rejected; a move from density 3 to density 2 with the draw
  \<open>u = 6004799503160661 / 2^53\<close>, which is the \<^verbatim>\<open>float64\<close> quotient \<open>pa\<close> itself and
  less than \<open>2/3\<close>, rejected; and a move from density \<open>2^600\<close> to density \<open>2^-600\<close>,
  whose quotient underflows to \<open>pa = 0\<close>, with the draw \<open>u = 0\<close>, rejected.
\<close>

theorem acceptance_rule_witness:
  "accepts (\<lambda>x::real. if x < 1 then 1 else 2) (\<lambda>g::nat. (1, Suc g)) (\<lambda>g. (1/4, Suc g))
     (init_chain 0 0) \<and>
   accepts (\<lambda>x::real. if x < 1 then 2 else 1) (\<lambda>g::nat. (1, Suc g)) (\<lambda>g. (1/4, Suc g))
     (init_chain 0 0) \<and>
   rejects (\<lambda>x::real. if x < 1 then 2 else 1) (\<lambda>g::nat. (1, Suc g)) (\<lambda>g. (3/4, Suc g))
     (init_chain 0 0) \<and>
   float_div 2 3 = Fin (6004799503160661 / 2 ^ 53) \<and>
   (6004799503160661 / 2 ^ 53 :: real) < 2 / 3 \<and>
   rejects (\<lambda>x::real. if x < 1 then 3 else 2) (\<lambda>g::nat. (1, Suc g))
     (\<lambda>g. (6004799503160661 / 2 ^ 53, Suc g)) (init_chain 0 0) \<and>
   float_div (1 / 2 ^ 600) (2 ^ 600) = Fin 0 \<and>
   rejects (\<lambda>x::real. if x < 1 then 2 ^ 600 else 1 / 2 ^ 600) (\<lambda>g::nat. (1, Suc g))
     (\<lambda>g. (0, Suc g)) (init_chain 0 0)"
proof -
  let ?q = "\<lambda>g::nat. (1::real, Suc g)"
  let ?ua = "\<lambda>g::nat. (1/4::real, Suc g)" and ?ub = "\<lambda>g::nat. (3/4::real, Suc g)"
  let ?uc = "\<lambda>g::nat. (6004799503160661 / 2 ^ 53 :: real, Suc g)"
  let ?s = "init_chain (0::real) (0::nat)"
  let ?up = "\<lambda>x::real. if x < 1 then 1 else (2::real)"
  let ?down = "\<lambda>x::real. if x < 1 then 2 else (1::real)"
  let ?third = "\<lambda>x::real. if x < 1 then 3 else (2::real)"
  let ?far = "\<lambda>x::real. if x < 1 then 2 ^ 600 else (1 / 2 ^ 600 :: real)"
  let ?uz = "\<lambda>g::nat. (0::real, Suc g)"
  have half: "float_div 1 2 = Fin (1/2)"
    by (simp add: float_div_def round64_half)
  have thirds: "float_div 2 3 = Fin (6004799503160661 / 2 ^ 53)"
    by (simp add: float_div_def round64_two_thirds)
  have tiny: "float_div (1 / 2 ^ 600) (2 ^ 600) = Fin 0"
  proof -
    have q: "(1 / 2 ^ 600) / (2 ^ 600 :: real) = 2 powi (- 1200)"
      by (simp add: power_int_minus field_simps flip: power_add)
    have "(2::real) powi (- 1200) \<le> 2 powi (- 1075)"
      by (rule power_int_increasing) simp_all
    then have "round64 (2 powi (- 1200)) = Fin 0"
      by (intro round64_underflow) simp_all
    then show ?thesis
      unfolding float_div_def q by simp
  qed
  have c: "cur ?s = 0" "gen ?s = 0" by (simp_all add: init_chain_def)
  have 1: "accepts ?up ?q ?ua ?s"
    using acceptance_rule [of ?q ?s 1 1 ?ua "1/4" 2 ?up, THEN conjunct1]
    by (simp add: c)
  have 2: "accepts ?down ?q ?ua ?s"
  proof -
    have "\<exists>pa. float_div 1 2 = Fin pa \<and> 0 \<le> pa \<and> pa \<le> 1 \<and> \<bar>pa - 1 / 2\<bar> \<le> 1 / 2 ^ 54 \<and>
          (accepts ?down ?q ?ua ?s \<longleftrightarrow> 1/4 < pa) \<and> (rejects ?down ?q ?ua ?s \<longleftrightarrow> pa \<le> 1/4) \<and>
          {v. 0 \<le> v \<and> v < 1 \<and> v < pa} = {0 ..< pa}"
      using acceptance_rule [of ?q ?s 1 1 ?ua "1/4" 2 ?down, THEN conjunct2]
      by (simp add: c)
    then obtain pa where "float_div 1 2 = Fin pa"
      and a: "accepts ?down ?q ?ua ?s \<longleftrightarrow> 1/4 < pa"
      by blast
    with half have "pa = 1/2" by simp
    with a show ?thesis by simp
  qed
  have 3: "rejects ?down ?q ?ub ?s"
  proof -
    have "\<exists>pa. float_div 1 2 = Fin pa \<and> 0 \<le> pa \<and> pa \<le> 1 \<and> \<bar>pa - 1 / 2\<bar> \<le> 1 / 2 ^ 54 \<and>
          (accepts ?down ?q ?ub ?s \<longleftrightarrow> 3/4 < pa) \<and> (rejects ?down ?q ?ub ?s \<longleftrightarrow> pa \<le> 3/4) \<and>
          {v. 0 \<le> v \<and> v < 1 \<and> v < pa} = {0 ..< pa}"
      using acceptance_rule [of ?q ?s 1 1 ?ub "3/4" 2 ?down, THEN conjunct2]
      by (simp add: c)
    then obtain pa where "float_div 1 2 = Fin pa"
      and a: "rejects ?down ?q ?ub ?s \<longleftrightarrow> pa \<le> 3/4"
      by blast
    with half have "pa = 1/2" by simp
    with a show ?thesis by simp
  qed
  have 5: "(6004799503160661 / 2 ^ 53 :: real) < 2 / 3" by simp
  have 4: "rejects ?third ?q ?uc ?s"
  proof -
    have "\<exists>pa. float_div 2 3 = Fin pa \<and> 0 \<le> pa \<and> pa \<le> 1 \<and> \<bar>pa - 2 / 3\<bar> \<le> 1 / 2 ^ 54 \<and>
          (accepts ?third ?q ?uc ?s \<longleftrightarrow> 6004799503160661 / 2 ^ 53 < pa) \<and>
          (rejects ?third ?q ?uc ?s \<longleftrightarrow> pa \<le> 6004799503160661 / 2 ^ 53) \<and>
          {v. 0 \<le> v \<and> v < 1 \<and> v < pa} = {0 ..< pa}"
      using acceptance_rule [of ?q ?s 1 1 ?uc "6004799503160661 / 2 ^ 53" 2 ?third, THEN conjunct2]
      by (simp add: c)
    then obtain pa where "float_div 2 3 = Fin pa"
      and a: "rejects ?third ?q ?uc ?s \<longleftrightarrow> pa \<le> 6004799503160661 / 2 ^ 53"
      by blast
    with thirds have "pa = 6004799503160661 / 2 ^ 53" by simp
    with a show ?thesis by simp
  qed
  have 6: "rejects ?far ?q ?uz ?s"
  proof -
    have "\<exists>pa. float_div (1 / 2 ^ 600) (2 ^ 600) = Fin pa \<and> 0 \<le> pa \<and> pa \<le> 1 \<and>
          \<bar>pa - (1 / 2 ^ 600) / 2 ^ 600\<bar> \<le> 1 / 2 ^ 54 \<and>
          (accepts ?far ?q ?uz ?s \<longleftrightarrow> 0 < pa) \<and> (rejects ?far ?q ?uz ?s \<longleftrightarrow> pa \<le> 0) \<and>
          {v. 0 \<le> v \<and> v < 1 \<and> v < pa} = {0 ..< pa}"
      using acceptance_rule [of ?q ?s 1 1 ?uz 0 2 ?far, THEN conjunct2]
      by (simp add: c)
    then obtain pa where "float_div (1 / 2 ^ 600) (2 ^ 600) = Fin pa"
      and a: "rejects ?far ?q ?uz ?s \<longleftrightarrow> pa \<le> 0"
      by blast
    with tiny have "pa = 0" by simp
    with a show ?thesis by simp
  qed
  from 1 2 3 thirds 5 4 tiny 6 show ?thesis by blast
qed

text \<open>
  Why C1 is amended: with current and candidate both of density 0 (both log-densities
  \<open>-infinity\<close>, so \<open>ld_after \<ge> ld_before\<close>) the ratio is \<open>0/0\<close> and the pass rejects.
\<close>

theorem acceptance_rule_counterexample:
  "(\<lambda>x::real. if x < 0 then 0 else (1::real)) (cur (init_chain (- 1) (0::nat))) \<le>
   (\<lambda>x::real. if x < 0 then 0 else (1::real))
     (candidate (\<lambda>g::nat. (- 1, Suc g)) (init_chain (- 1) 0)) \<and>
   rejects (\<lambda>x::real. if x < 0 then 0 else 1) (\<lambda>g::nat. (- 1, Suc g)) (\<lambda>g. (1/2, Suc g))
     (init_chain (- 1) 0) \<and>
   \<not> accepts (\<lambda>x::real. if x < 0 then 0 else 1) (\<lambda>g::nat. (- 1, Suc g)) (\<lambda>g. (1/2, Suc g))
     (init_chain (- 1) 0)"
  by (simp add: accepts_def rejects_def step_def candidate_def init_chain_def float_div_simps)

section \<open>What the two returned lists hold\<close>

text \<open>
  Claim C2, as amended. \<^verbatim>\<open>metropolis\<close> has no burn-in and no thinning, so every pass
  would count as retained; yet after \<open>k\<close> passes the length of \<^verbatim>\<open>samples\<close> is the number
  of accepted passes, not \<open>k\<close>: the two lists together have \<open>k\<close> entries, and a pass that
  rejects appends nothing to \<^verbatim>\<open>samples\<close>.
\<close>

theorem samples_count_accepted_passes:
  "length (samples (metropolis_loop p q uniform k (init_chain x_init g))) =
     length (filter (accepts p q uniform) (passes p q uniform k (init_chain x_init g))) \<and>
   length (samples (metropolis_loop p q uniform k (init_chain x_init g))) +
     length (rejected (metropolis_loop p q uniform k (init_chain x_init g))) = k \<and>
   (rejects p q uniform s \<longleftrightarrow> samples (step p q uniform s) = samples s)"
proof -
  let ?ps = "passes p q uniform k (init_chain x_init g)"
  have "length (filter (accepts p q uniform) ?ps) +
        length (filter (\<lambda>t. \<not> accepts p q uniform t) ?ps) = length ?ps"
    by (rule sum_length_filter_compl)
  then show ?thesis
    by (simp add: loop_samples loop_rejected length_passes init_chain_def
        accepts_or_rejects step_samples)
qed

text \<open>
  Why C2 is amended: one pass from 0 with the candidate \<open>-1\<close> of density 0 is rejected,
  and \<^verbatim>\<open>samples\<close> stays empty after one iteration.
\<close>

theorem samples_count_counterexample:
  "samples (metropolis_loop (\<lambda>x::real. if x < 0 then 0 else 1) (\<lambda>g::nat. (- 1, Suc g))
      (\<lambda>g. (1/2, Suc g)) 1 (init_chain 0 0)) = [] \<and>
   rejected (metropolis_loop (\<lambda>x::real. if x < 0 then 0 else 1) (\<lambda>g::nat. (- 1, Suc g))
      (\<lambda>g. (1/2, Suc g)) 1 (init_chain 0 0)) = [- 1] \<and>
   length (samples (metropolis_loop (\<lambda>x::real. if x < 0 then 0 else 1) (\<lambda>g::nat. (- 1, Suc g))
      (\<lambda>g. (1/2, Suc g)) 1 (init_chain 0 0))) \<noteq> 1"
  by (simp add: step_def init_chain_def float_div_simps)

text \<open>
  Claim C3. When each of \<open>k\<close> passes in a row rejects (each appends its candidate to
  \<^verbatim>\<open>rejected\<close>), the current point \<^verbatim>\<open>x\<close> is the one before these passes, and so
  are its density and \<^verbatim>\<open>samples\<close>: the code never writes to \<^verbatim>\<open>x\<close> on this path, so
  nothing has to be undone. For \<open>k = 1\<close> this is one rejected step.
\<close>

theorem rejection_restores_state:
  assumes "length (rejected (metropolis_loop p q uniform k s)) = length (rejected s) + k"
  shows "cur (metropolis_loop p q uniform k s) = cur s \<and>
         p (cur (metropolis_loop p q uniform k s)) = p (cur s) \<and>
         samples (metropolis_loop p q uniform k s) = samples s \<and>
         (k = 1 \<longrightarrow> rejects p q uniform s \<and> cur (step p q uniform s) = cur s)"
proof -
  let ?ps = "passes p q uniform k s"
  from assms have "length (filter (\<lambda>t. \<not> accepts p q uniform t) ?ps) = length ?ps"
    by (simp add: loop_rejected length_passes)
  then have all: "\<forall>t \<in> set ?ps. \<not> accepts p q uniform t"
    by (rule filter_all_length)
  then have c: "cur (metropolis_loop p q uniform k s) = cur s"
    by (rule loop_cur_unchanged)
  from all have "filter (accepts p q uniform) ?ps = []"
    by (simp add: filter_empty_conv)
  then have sm: "samples (metropolis_loop p q uniform k s) = samples s"
    by (simp add: loop_samples)
  have one: "rejects p q uniform s \<and> cur (step p q uniform s) = cur s" if "k = 1"
    using all that by (simp add: accepts_or_rejects step_cur)
  from c sm one show ?thesis by simp
qed

text \<open>Two passes in a row from 0 towards \<open>-1\<close>, which has density 0.\<close>

theorem rejection_restores_state_witness:
  "length (rejected (metropolis_loop (\<lambda>x::real. if x < 0 then 0 else 1)
      (\<lambda>g::nat. (- 1, Suc g)) (\<lambda>g. (1/2, Suc g)) 2 (init_chain 0 0))) =
   length (rejected (init_chain (0::real) (0::nat))) + 2 \<and>
   cur (metropolis_loop (\<lambda>x::real. if x < 0 then 0 else 1)
      (\<lambda>g::nat. (- 1, Suc g)) (\<lambda>g. (1/2, Suc g)) 2 (init_chain 0 0)) = 0"
proof -
  let ?p = "\<lambda>x::real. if x < 0 then 0 else (1::real)"
  let ?q = "\<lambda>g::nat. (- 1::real, Suc g)" and ?u = "\<lambda>g::nat. (1/2::real, Suc g)"
  have h: "length (rejected (metropolis_loop ?p ?q ?u 2 (init_chain 0 0))) =
           length (rejected (init_chain (0::real) (0::nat))) + 2"
    by (simp add: eval_nat_numeral step_def init_chain_def float_div_simps)
  from rejection_restores_state [OF h] h show ?thesis
    by (simp add: init_chain_def)
qed

text \<open>
  Claim C4. A log-density of \<open>-infinity\<close> is a density of 0. For a uniform draw \<open>u \<ge> 0\<close>:
  from density 0 to a positive density the pass accepts; a candidate of density 0 is
  rejected whatever the current density (from a positive density the ratio is 0, from
  density 0 it is \<^verbatim>\<open>nan\<close>).
\<close>

theorem infinite_log_density_moves:
  assumes "q (gen s) = (noise, g1)" and "uniform g1 = (u, g2)" and "0 \<le> u"
  shows "(p (cur s) = 0 \<and> 0 < p (cur s + noise) \<longrightarrow>
            accepts p q uniform s \<and> \<not> rejects p q uniform s) \<and>
         (p (cur s + noise) = 0 \<and> 0 \<le> p (cur s) \<longrightarrow>
            rejects p q uniform s \<and> \<not> accepts p q uniform s)"
proof -
  note acc = accepts_iff [of q s noise g1 uniform u g2 p, OF assms(1,2)]
  have "accepts p q uniform s" if "p (cur s) = 0" and "0 < p (cur s + noise)"
    using that by (simp add: acc)
  moreover have "\<not> accepts p q uniform s" if "p (cur s + noise) = 0" and "0 \<le> p (cur s)"
    using that assms(3) by (cases "p (cur s) = 0") (simp_all add: acc float_div_simps)
  ultimately show ?thesis by (auto simp: accepts_or_rejects)
qed

text \<open>
  From \<open>-1\<close> (density 0) to 0 (density 1); from 0 to \<open>-1\<close>; from \<open>-1\<close> to \<open>-2\<close>
  (both of density 0).
\<close>

theorem infinite_log_density_moves_witness:
  "accepts (\<lambda>x::real. if x < 0 then 0 else 1) (\<lambda>g::nat. (1, Suc g)) (\<lambda>g. (1/2, Suc g))
     (init_chain (- 1) 0) \<and>
   rejects (\<lambda>x::real. if x < 0 then 0 else 1) (\<lambda>g::nat. (- 1, Suc g)) (\<lambda>g. (0, Suc g))
     (init_chain 0 0) \<and>
   rejects (\<lambda>x::real. if x < 0 then 0 else 1) (\<lambda>g::nat. (- 1, Suc g)) (\<lambda>g. (0, Suc g))
     (init_chain (- 1) 0)"
proof -
  let ?p = "\<lambda>x::real. if x < 0 then 0 else (1::real)"
  let ?u = "\<lambda>g::nat. (1/2::real, Suc g)" and ?uz = "\<lambda>g::nat. (0::real, Suc g)"
  have 1: "accepts ?p (\<lambda>g::nat. (1, Suc g)) ?u (init_chain (- 1) 0)"
    using infinite_log_density_moves
      [of "\<lambda>g::nat. (1::real, Suc g)" "init_chain (- 1) 0" 1 1 ?u "1/2" 2 ?p]
    by (simp add: init_chain_def)
  have 2: "rejects ?p (\<lambda>g::nat. (- 1, Suc g)) ?uz (init_chain 0 0)"
    using infinite_log_density_moves
      [of "\<lambda>g::nat. (- 1::real, Suc g)" "init_chain 0 0" "- 1" 1 ?uz 0 2 ?p]
    by (simp add: init_chain_def)
  have 3: "rejects ?p (\<lambda>g::nat. (- 1, Suc g)) ?uz (init_chain (- 1) 0)"
    using infinite_log_density_moves
      [of "\<lambda>g::nat. (- 1::real, Suc g)" "init_chain (- 1) 0" "- 1" 1 ?uz 0 2 ?p]
    by (simp add: init_chain_def)
  from 1 2 3 show ?thesis by simp
qed

text \<open>
  Claim C5, as amended. Every pass ends by accepting or by rejecting (float64 division
  does not raise). For a density that is never negative and uniform draws \<open>\<ge> 0\<close>:
  a candidate of density 0 is rejected, so every point of \<^verbatim>\<open>samples\<close> has positive
  density; and when \<^verbatim>\<open>x_init\<close> has positive density so has the current point at the
  start of every pass, so the divisor of the ratio is never 0 then.
\<close>

theorem zero_density_never_accepted:
  assumes "\<forall>y. 0 \<le> p y" and "\<forall>h. 0 \<le> fst (uniform h)"
  shows "(accepts p q uniform s \<or> rejects p q uniform s) \<and>
         (p (candidate q s) = 0 \<longrightarrow> rejects p q uniform s) \<and>
         (\<forall>y \<in> set (samples (metropolis_loop p q uniform k (init_chain x_init g))). 0 < p y) \<and>
         (0 < p x_init \<longrightarrow>
            (\<forall>t \<in> set (passes p q uniform k (init_chain x_init g)). 0 < p (cur t)))"
proof (intro conjI impI)
  show "accepts p q uniform s \<or> rejects p q uniform s"
    by (simp add: accepts_or_rejects)
next
  assume "p (candidate q s) = 0"
  with accepts_positive [OF assms, of q s] show "rejects p q uniform s"
    by (auto simp: accepts_or_rejects)
next
  show "\<forall>y \<in> set (samples (metropolis_loop p q uniform k (init_chain x_init g))). 0 < p y"
    using accepts_positive [OF assms, of q]
    by (auto simp: loop_samples init_chain_def)
next
  assume "0 < p x_init"
  then have "0 < p (cur (init_chain x_init g))" by (simp add: init_chain_def)
  then show "\<forall>t \<in> set (passes p q uniform k (init_chain x_init g)). 0 < p (cur t)"
    by (rule passes_cur_positive [OF assms])
qed

text \<open>A run from 0 whose candidates \<open>-1\<close> have density 0.\<close>

theorem zero_density_never_accepted_witness:
  "(\<forall>y::real. (0::real) \<le> (if y < 0 then 0 else 1)) \<and>
   (\<forall>h::nat. 0 \<le> fst (1/2::real, Suc h)) \<and>
   rejects (\<lambda>x::real. if x < 0 then 0 else 1) (\<lambda>g::nat. (- 1, Suc g)) (\<lambda>g. (1/2, Suc g))
     (init_chain 0 0) \<and>
   samples (metropolis_loop (\<lambda>x::real. if x < 0 then 0 else 1) (\<lambda>g::nat. (- 1, Suc g))
     (\<lambda>g. (1/2, Suc g)) 2 (init_chain 0 0)) = []"
proof -
  let ?p = "\<lambda>x::real. if x < 0 then 0 else (1::real)"
  let ?q = "\<lambda>g::nat. (- 1::real, Suc g)" and ?u = "\<lambda>g::nat. (1/2::real, Suc g)"
  have h1: "\<forall>y. 0 \<le> ?p y" by simp
  have h2: "\<forall>h. 0 \<le> fst (?u h)" by simp
  have "rejects ?p ?q ?u (init_chain 0 0)"
    using zero_density_never_accepted [OF h1 h2, of ?q "init_chain 0 0", THEN conjunct2, THEN conjunct1]
    by (simp add: candidate_def init_chain_def)
  moreover have "samples (metropolis_loop ?p ?q ?u 2 (init_chain 0 0)) = []"
    by (simp add: eval_nat_numeral step_def init_chain_def float_div_simps)
  ultimately show ?thesis by simp
qed

text \<open>
  Why C5 is amended: started at \<open>-1\<close>, of density 0, with the candidate \<open>-2\<close>, the test
  \<^verbatim>\<open>p(x_prime) > p(x)\<close> fails and the ratio is computed with the divisor \<^verbatim>\<open>p(x) = 0\<close>:
  the code does divide by a zero current-state density.
\<close>

theorem zero_density_division_counterexample:
  "(\<lambda>x::real. if x < 0 then 0 else (1::real)) (cur (init_chain (- 1) (0::nat))) = 0 \<and>
   \<not> (\<lambda>x::real. if x < 0 then 0 else (1::real)) (cur (init_chain (- 1) (0::nat))) <
     (\<lambda>x::real. if x < 0 then 0 else (1::real))
       (candidate (\<lambda>g::nat. (- 1, Suc g)) (init_chain (- 1) 0)) \<and>
   float_div
     ((\<lambda>x::real. if x < 0 then 0 else (1::real))
        (candidate (\<lambda>g::nat. (- 1, Suc g)) (init_chain (- 1) 0)))
     ((\<lambda>x::real. if x < 0 then 0 else (1::real)) (cur (init_chain (- 1) (0::nat)))) = NaN \<and>
   rejected (step (\<lambda>x::real. if x < 0 then 0 else 1) (\<lambda>g::nat. (- 1, Suc g))
     (\<lambda>g. (1/2, Suc g)) (init_chain (- 1) 0)) = [- 2]"
  by (simp add: candidate_def init_chain_def float_div_simps step_def)

section \<open>The sampler of the specification\<close>

text \<open>
  Claim C7. A valid run records, for every unobserved node, the values after exactly
  the sweeps \<open>i\<close> with \<open>1 \<le> i \<le> iterations\<close>, \<open>burn_in < i\<close> and
  \<open>(i - burn_in) mod thin_interval = 0\<close>, in order. For \<open>iterations = 100\<close>,
  \<open>burn_in = 20\<close>, \<open>thin_interval = 5\<close> these are 16 sweeps, the first of them sweep 25.
\<close>

theorem sample_retains_after_burn_in:
  "sample sweep current cfg names st0 =
     (if thin_interval cfg = 0 \<or> iterations cfg < burn_in cfg then Inl InvalidConfiguration
      else Inr ((sweep ^^ iterations cfg) st0,
             map (\<lambda>name. (name, map (\<lambda>i. current ((sweep ^^ i) st0) name) (retained cfg)))
               names)) \<and>
   set (retained cfg) =
     {i. 1 \<le> i \<and> i \<le> iterations cfg \<and> burn_in cfg < i \<and>
         (i - burn_in cfg) mod thin_interval cfg = 0} \<and>
   retained \<lparr>iterations = 100, burn_in = 20, thin_interval = 5\<rparr> =
     [25, 30, 35, 40, 45, 50, 55, 60, 65, 70, 75, 80, 85, 90, 95, 100] \<and>
   length (retained \<lparr>iterations = 100, burn_in = 20, thin_interval = 5\<rparr>) = 16 \<and>
   sample sweep current \<lparr>iterations = 100, burn_in = 20, thin_interval = 5\<rparr> [name] st0 =
     Inr ((sweep ^^ 100) st0,
       [(name, map (\<lambda>i. current ((sweep ^^ i) st0) name)
                 [25, 30, 35, 40, 45, 50, 55, 60, 65, 70, 75, 80, 85, 90, 95, 100])])"
proof -
  have run: "run_sweeps sweep current c (iterations c) 0 (st0, map (\<lambda>name. (name, [])) ns) =
      ((sweep ^^ iterations c) st0,
       map (\<lambda>name. (name, map (\<lambda>i. current ((sweep ^^ i) st0) name) (retained c))) ns)"
    for c ns
    using run_sweeps_retained [of sweep current c "iterations c" 0 st0 "\<lambda>name. []" ns]
    by (simp add: retained_def del: upt_Suc)
  have gen: "sample sweep current c ns st0 =
     (if thin_interval c = 0 \<or> iterations c < burn_in c then Inl InvalidConfiguration
      else Inr ((sweep ^^ iterations c) st0,
             map (\<lambda>name. (name, map (\<lambda>i. current ((sweep ^^ i) st0) name) (retained c))) ns))"
    for c ns
    by (simp add: sample_def run)
  have set: "set (retained cfg) =
     {i. 1 \<le> i \<and> i \<le> iterations cfg \<and> burn_in cfg < i \<and>
         (i - burn_in cfg) mod thin_interval cfg = 0}"
    by (auto simp: retained_def simp del: upt_Suc)
  have ex: "retained \<lparr>iterations = 100, burn_in = 20, thin_interval = 5\<rparr> =
     [25, 30, 35, 40, 45, 50, 55, 60, 65, 70, 75, 80, 85, 90, 95, 100]"
    by code_simp
  have len: "length (retained \<lparr>iterations = 100, burn_in = 20, thin_interval = 5\<rparr>) = 16"
    by (simp add: ex)
  have part: "sample sweep current \<lparr>iterations = 100, burn_in = 20, thin_interval = 5\<rparr> [name] st0 =
     Inr ((sweep ^^ 100) st0,
       [(name, map (\<lambda>i. current ((sweep ^^ i) st0) name)
                 [25, 30, 35, 40, 45, 50, 55, 60, 65, 70, 75, 80, 85, 90, 95, 100])])"
    unfolding gen ex by simp
  from gen [of cfg names] set ex len part show ?thesis by blast
qed

text \<open>
  Claim C8. An Observed node with \<open>k\<close> masked (false) entries yields \<open>k\<close> latent nodes,
  each Stochastic with the node's parents and family; against the same model with the
  node fully observed, the unobserved-node set and the trace store grow by \<open>k\<close>.
\<close>

theorem masked_entries_become_latent_nodes:
  assumes "kind nd = Observed" and "count_list (observed_mask nd) False = k"
  shows "length (latent_nodes entry_name nd) = k \<and>
         (\<forall>l \<in> set (latent_nodes entry_name nd).
            kind l = Stochastic \<and> parents l = parents nd \<and> family l = family nd \<and>
            length (node_value l) \<le> 1) \<and>
         length (unobserved_nodes entry_name (before @ nd # after)) =
           length (unobserved_nodes entry_name
             (before @ nd\<lparr>observed_mask := map (\<lambda>b. True) (observed_mask nd)\<rparr> # after)) + k \<and>
         length (new_trace_store entry_name (before @ nd # after)) =
           length (new_trace_store entry_name
             (before @ nd\<lparr>observed_mask := map (\<lambda>b. True) (observed_mask nd)\<rparr> # after)) + k"
proof -
  have len: "length (latent_nodes entry_name nd) = k"
    using assms(2) by (simp add: latent_nodes_def length_masked_entries)
  have same: "\<forall>l \<in> set (latent_nodes entry_name nd).
      kind l = Stochastic \<and> parents l = parents nd \<and> family l = family nd \<and>
      length (node_value l) \<le> 1"
    by (auto simp: latent_nodes_def latent_node_def)
  have "count_list (map (\<lambda>b. True) m) False = 0" for m :: "bool list"
    by (induction m) simp_all
  then have full: "latent_nodes entry_name
      (nd\<lparr>observed_mask := map (\<lambda>b. True) (observed_mask nd)\<rparr>) = []"
    using length_masked_entries [of "nd\<lparr>observed_mask := map (\<lambda>b. True) (observed_mask nd)\<rparr>"]
    by (simp add: latent_nodes_def)
  have grow: "length (unobserved_nodes entry_name (before @ nd # after)) =
      length (unobserved_nodes entry_name
        (before @ nd\<lparr>observed_mask := map (\<lambda>b. True) (observed_mask nd)\<rparr> # after)) + k"
    using assms(1) len full by (simp add: unobserved_nodes_insert)
  then have store: "length (new_trace_store entry_name (before @ nd # after)) =
      length (new_trace_store entry_name
        (before @ nd\<lparr>observed_mask := map (\<lambda>b. True) (observed_mask nd)\<rparr> # after)) + k"
    by (simp add: new_trace_store_def)
  from len same grow store show ?thesis by simp
qed

text \<open>The notebook's masking of five values: the last three are masked.\<close>

theorem masked_entries_become_latent_nodes_witness:
  "y_impute [3, 1, 4, 1, 5] = [True, True, False, False, False] \<and>
   kind \<lparr>identity = ''y_obs'', kind = Observed, node_value = [3, 1, 4, 1, 5],
      parents = [''line'', ''precision''], family = ''Normal'',
      observed_mask = y_impute [3, 1, 4, 1, 5]\<rparr> = Observed \<and>
   count_list (y_impute [3, 1, 4, 1, 5]) False = 3 \<and>
   length (latent_nodes (\<lambda>name i. name @ replicate (Suc i) (CHR ''*''))
     \<lparr>identity = ''y_obs'', kind = Observed, node_value = [3, 1, 4, 1, 5],
      parents = [''line'', ''precision''], family = ''Normal'',
      observed_mask = y_impute [3, 1, 4, 1, 5]\<rparr>) = 3"
proof -
  let ?nd = "\<lparr>identity = ''y_obs'', kind = Observed, node_value = [3, 1, 4, 1, 5],
      parents = [''line'', ''precision''], family = ''Normal'',
      observed_mask = y_impute [3, 1, 4, 1, 5]\<rparr>"
  have 0: "y_impute [3, 1, 4, 1, 5] = [True, True, False, False, False]"
    by (simp add: y_impute_def zero_last_three_def masked_equal_def)
  have 1: "kind ?nd = Observed" by simp
  have 2: "count_list (observed_mask ?nd) False = 3" by (simp add: 0)
  have 3: "length (latent_nodes (\<lambda>name i. name @ replicate (Suc i) (CHR ''*'')) ?nd) = 3"
    by (rule masked_entries_become_latent_nodes [OF 1 2,
        of "\<lambda>name i. name @ replicate (Suc i) (CHR ''*'')", THEN conjunct1])
  from 0 1 2 3 show ?thesis by simp
qed

section \<open>The partition of the candidates\<close>

text \<open>
  Claim C10. For \<open>n \<ge> 0\<close> the \<open>n\<close> candidates are split between the two returned
  lists: the accepted ones, in order, are \<^verbatim>\<open>samples\<close>, the others are \<^verbatim>\<open>rejected\<close>;
  the lengths add up to \<open>n\<close>. Only candidates are recorded: \<^verbatim>\<open>x_init\<close> is not, and
  for \<open>n = 0\<close> both lists are empty.
\<close>

theorem metropolis_partitions_candidates:
  assumes "0 \<le> n"
    and "metropolis p q uniform x_init n g = (acc, rej, g')"
  shows "int (length acc) + int (length rej) = n \<and>
         length (candidates p q uniform (nat n) (init_chain x_init g)) = nat n \<and>
         acc = map (candidate q) (filter (accepts p q uniform)
                 (passes p q uniform (nat n) (init_chain x_init g))) \<and>
         rej = map (candidate q) (filter (\<lambda>t. \<not> accepts p q uniform t)
                 (passes p q uniform (nat n) (init_chain x_init g))) \<and>
         mset acc + mset rej = mset (candidates p q uniform (nat n) (init_chain x_init g)) \<and>
         metropolis p q uniform x_init 0 g = ([], [], g)"
proof -
  let ?ps = "passes p q uniform (nat n) (init_chain x_init g)"
  from assms(2) have acc: "acc = map (candidate q) (filter (accepts p q uniform) ?ps)"
    and rej: "rej = map (candidate q) (filter (\<lambda>t. \<not> accepts p q uniform t) ?ps)"
    by (simp_all add: metropolis_def Let_def loop_samples loop_rejected init_chain_def)
  have "length (filter (accepts p q uniform) ?ps) +
        length (filter (\<lambda>t. \<not> accepts p q uniform t) ?ps) = length ?ps"
    by (rule sum_length_filter_compl)
  then have "length acc + length rej = nat n"
    by (simp add: acc rej length_passes)
  with assms(1) have len: "int (length acc) + int (length rej) = n"
    by linarith
  have cands: "length (candidates p q uniform (nat n) (init_chain x_init g)) = nat n"
    by (simp add: candidates_def length_passes)
  have ms: "mset acc + mset rej = mset (candidates p q uniform (nat n) (init_chain x_init g))"
    unfolding acc rej candidates_def by (rule mset_map_partition)
  have zero: "metropolis p q uniform x_init 0 g = ([], [], g)"
    by (simp add: metropolis_def init_chain_def)
  from len cands acc rej ms zero show ?thesis by simp
qed

text \<open>Two passes from 0: the candidate \<open>-1\<close> is rejected, the candidate 1 accepted.\<close>

theorem metropolis_partitions_candidates_witness:
  "(0::int) \<le> 2 \<and>
   metropolis (\<lambda>x::real. if x < 0 then 0 else 1) (\<lambda>g::nat. (if g = 0 then - 1 else 1, Suc g))
     (\<lambda>g. (1/2, Suc g)) 0 2 0 = ([1], [- 1], 4) \<and>
   candidates (\<lambda>x::real. if x < 0 then 0 else 1) (\<lambda>g::nat. (if g = 0 then - 1 else 1, Suc g))
     (\<lambda>g. (1/2, Suc g)) (nat 2) (init_chain 0 0) = [- 1, 1] \<and>
   int (length [1::real]) + int (length [- 1::real]) = 2"
proof -
  let ?p = "\<lambda>x::real. if x < 0 then 0 else (1::real)"
  let ?q = "\<lambda>g::nat. (if g = 0 then - 1 else 1::real, Suc g)"
  let ?u = "\<lambda>g::nat. (1/2::real, Suc g)"
  have h: "metropolis ?p ?q ?u 0 2 0 = ([1], [- 1], 4)"
    by (simp add: metropolis_def init_chain_def step_def float_div_simps eval_nat_numeral)
  have c: "candidates ?p ?q ?u (nat 2) (init_chain 0 0) = [- 1, 1]"
    by (simp add: candidates_def candidate_def init_chain_def step_def float_div_simps
        eval_nat_numeral)
  have l: "int (length [1::real]) + int (length [- 1::real]) = 2"
    using metropolis_partitions_candidates [of 2, OF _ h, THEN conjunct1] by simp
  from h c l show ?thesis by simp
qed

end
